theory Spec2Isabelle
  imports Main "HOL-Library.Word"
begin

section \<open>Value model (scheme.go, lines 15-167)\<close>

text \<open>
  The Go program has one interface \<open>val\<close> implemented by \<open>empty\<close>, \<open>*cons\<close>,
  \<open>symbol\<close>, \<open>number\<close>, \<open>boolean\<close> and \<open>builtin\<close>; the interface \<open>seq\<close> is
  implemented by \<open>empty\<close> and \<open>*cons\<close> only, and the field \<open>cdr\<close> of a cons has
  type \<open>seq\<close>.  Hence two mutually recursive datatypes.

  The field \<open>f\<close> of \<open>builtin\<close> is a Go function value of type
  \<open>func([]val) val\<close>.  The program has exactly two functions of that type,
  \<open>builtinPlus\<close> and \<open>builtinMul\<close>; the field is modelled by a tag naming one
  of them, and \<open>call\<close> dispatches on the tag.
\<close>

datatype native = NativePlus | NativeMul

datatype val =
    Number "64 word"
  | Boolean bool
  | Symbol string
  | Seq seq
  | Builtin string native
and seq =
    Empty
  | Cons_seq (car: val) (cdr: seq)

text \<open>
  Every \<open>panic\<close> of the program is a constructor of this type, named after
  the message of the panic:
  \<^item> \<open>FirstOnEmpty\<close>: "first called on empty" (line 46);
  \<^item> \<open>RestOnEmpty\<close>: "rest called on empty" (line 50);
  \<^item> \<open>CompareFunctions\<close>: "you should not compare functions!" (line 162);
  \<^item> \<open>BeyondEOS\<close>: "Advancing beyond EOS" (lines 180 and 187);
  \<^item> \<open>DifferentStrings\<close>: "Can't get token from two different strings" (line 205);
  \<^item> \<open>SliceBounds\<close>: the run-time panic of Go's slice expression
    \<open>s[lo:hi]\<close> when \<open>lo > hi\<close> or \<open>hi > len(s)\<close> (line 207);
  \<^item> \<open>TooManyItems\<close>: "Too many items in seq" (lines 288 and 303);
  \<^item> \<open>Unbound\<close>: "unbound NAME" (line 346);
  \<^item> \<open>CannotApply\<close>: "cannot apply non-function V" (line 324);
  \<^item> \<open>CannotEval\<close>: "cannot eval V" (line 371);
  \<^item> \<open>CannotAdd\<close>: "cannot add non-number V" (line 381);
  \<^item> \<open>CannotMultiply\<close>: "cannot multiply non-number V" (line 393).
  In the words of the specification: \<open>FirstOnEmpty\<close> and \<open>RestOnEmpty\<close> are
  EmptyAccess, \<open>TooManyItems\<close> is WrongArity, \<open>Unbound\<close> is UnboundSymbol,
  \<open>CannotApply\<close> is NotAFunction, \<open>CannotAdd\<close> and \<open>CannotMultiply\<close> are
  TypeMismatch and \<open>CompareFunctions\<close> is IncomparableFunctions.
\<close>

datatype panic =
    FirstOnEmpty
  | RestOnEmpty
  | CompareFunctions
  | BeyondEOS
  | DifferentStrings
  | SliceBounds
  | TooManyItems
  | Unbound string
  | CannotApply val
  | CannotEval val
  | CannotAdd val
  | CannotMultiply val

subsection \<open>Sequences: empty, first, rest\<close>

fun empty_seq :: "seq \<Rightarrow> bool" where
  "empty_seq Empty = True"
| "empty_seq (Cons_seq a d) = False"

fun first :: "seq \<Rightarrow> panic + val" where
  "first Empty = Inl FirstOnEmpty"
| "first (Cons_seq a d) = Inr a"

fun rest :: "seq \<Rightarrow> panic + seq" where
  "rest Empty = Inl RestOnEmpty"
| "rest (Cons_seq a d) = Inr d"

subsection \<open>Printing\<close>

text \<open>
  \<open>number.pr\<close> is \<open>fmt.Sprintf("%v", n.i)\<close> on an \<open>int64\<close>: the decimal
  digits of the magnitude, after a minus sign when the number is negative
  (Go's \<open>strconv.FormatInt(i, 10)\<close>).
\<close>

definition digit_char :: "int \<Rightarrow> char" where
  "digit_char d = ''0123456789'' ! nat d"

function formatUint :: "int \<Rightarrow> string" where
  "formatUint n = (if n < 10 then [digit_char n] else formatUint (n div 10) @ [digit_char (n mod 10)])"
  by pat_completeness auto
termination
  by (relation "measure nat") auto

declare formatUint.simps [simp del]

definition formatInt :: "64 word \<Rightarrow> string" where
  "formatInt w = (if sint w < 0 then CHR ''-'' # formatUint (- sint w) else formatUint (sint w))"

text \<open>
  \<open>cons.pr\<close> (lines 58-66) starts from \<open>"(" + car.pr()\<close>, appends a blank and
  the print form of every further element in a loop, and closes with \<open>")"\<close>.
  \<open>pr_loop\<close> is that loop, with the string built so far as its accumulator.
\<close>

fun pr :: "val \<Rightarrow> string"
  and pr_seq :: "seq \<Rightarrow> string"
  and pr_loop :: "string \<Rightarrow> seq \<Rightarrow> string" where
  "pr (Number i) = formatInt i"
| "pr (Boolean b) = (if b then ''#t'' else ''#f'')"
| "pr (Symbol name) = name"
| "pr (Seq sq) = pr_seq sq"
| "pr (Builtin name f) = ''#<function:'' @ name @ ''>''"
| "pr_seq Empty = ''()''"
| "pr_seq (Cons_seq a d) = pr_loop (''('' @ pr a) d @ '')''"
| "pr_loop acc Empty = acc"
| "pr_loop acc (Cons_seq x r) = pr_loop (acc @ '' '' @ pr x) r"

subsection \<open>Structural equality\<close>

text \<open>
  \<open>equal v other\<close> is the method call \<open>v.equal(other)\<close>: \<open>v\<close> is the receiver.
  Every variant but \<open>builtin\<close> first asserts that \<open>other\<close> has the receiver's
  own dynamic type and returns false when it has not; \<open>builtin.equal\<close> panics
  before it looks at \<open>other\<close>.  In \<open>cons.equal\<close> the operator \<open>&&\<close> does not
  evaluate the comparison of the tails when the heads differ.
\<close>

fun equal :: "val \<Rightarrow> val \<Rightarrow> panic + bool"
  and equal_seq :: "seq \<Rightarrow> val \<Rightarrow> panic + bool" where
  "equal (Number i) other = (case other of Number j \<Rightarrow> Inr (i = j) | _ \<Rightarrow> Inr False)"
| "equal (Boolean b) other = (case other of Boolean c \<Rightarrow> Inr (b = c) | _ \<Rightarrow> Inr False)"
| "equal (Symbol name) other = (case other of Symbol name' \<Rightarrow> Inr (name = name') | _ \<Rightarrow> Inr False)"
| "equal (Seq sq) other = equal_seq sq other"
| "equal (Builtin name f) other = Inl CompareFunctions"
| "equal_seq Empty other = (case other of Seq Empty \<Rightarrow> Inr True | _ \<Rightarrow> Inr False)"
| "equal_seq (Cons_seq a d) other =
     (case other of
        Seq (Cons_seq a' d') \<Rightarrow>
          (case equal a a' of
             Inl p \<Rightarrow> Inl p
           | Inr False \<Rightarrow> Inr False
           | Inr True \<Rightarrow> equal_seq d (Seq d'))
      | _ \<Rightarrow> Inr False)"

fun isTrue :: "val \<Rightarrow> bool" where
  "isTrue (Boolean b) = b"
| "isTrue v = True"

section \<open>Reader (scheme.go, lines 169-273)\<close>

subsection \<open>The cursor\<close>

text \<open>
  \<open>lexState\<close> is the struct of lines 169-172: the source text \<open>s\<close> and the
  offset \<open>pos\<close> (fields \<open>ls_s\<close> and \<open>ls_pos\<close> here).  A Go string is a
  sequence of bytes indexed by byte, which is what \<open>string\<close> is in HOL.
  The offset starts at 0 and is only ever incremented, so it is a \<open>nat\<close>.
\<close>

record lexState =
  ls_s :: string
  ls_pos :: nat

datatype read_error =
    EOS
  | NoBoolean
  | UnexpectedClose

text \<open>
  The three errors the reader returns: \<open>errors.New("EOS")\<close> (lines 231 and
  237), \<open>errors.New("No boolean")\<close> (line 247) and
  \<open>errors.New("unexpected `)`")\<close> (line 254); in the words of the
  specification UnexpectedEndOfInput, InvalidBooleanLiteral and
  UnmatchedCloseParen.
\<close>

definition isEOS :: "lexState \<Rightarrow> bool" where
  "isEOS ls = (ls_pos ls \<ge> length (ls_s ls))"

definition advance :: "lexState \<Rightarrow> panic + lexState" where
  "advance ls = (if isEOS ls then Inl BeyondEOS else Inr (ls\<lparr>ls_pos := ls_pos ls + 1\<rparr>))"

definition current :: "lexState \<Rightarrow> panic + char" where
  "current ls = (if isEOS ls then Inl BeyondEOS else Inr (ls_s ls ! ls_pos ls))"

text \<open>
  \<open>skipWhile\<close> (lines 192-197): the loop runs while the cursor is not at the
  end and the predicate holds of the current byte; \<open>&&\<close> does not call
  \<open>current\<close> at the end of the input.
\<close>

function skipWhile :: "(char \<Rightarrow> bool) \<Rightarrow> lexState \<Rightarrow> panic + lexState" where
  "skipWhile pred ls =
     (if isEOS ls then Inr ls
      else (case current ls of
              Inl p \<Rightarrow> Inl p
            | Inr c \<Rightarrow>
                if pred c then
                  (case advance ls of
                     Inl p \<Rightarrow> Inl p
                   | Inr ls' \<Rightarrow> skipWhile pred ls')
                else Inr ls))"
  by pat_completeness auto
termination
  by (relation "measure (\<lambda>(pred, ls). length (ls_s ls) - ls_pos ls)")
     (auto simp: isEOS_def advance_def split: if_splits)

declare skipWhile.simps [simp del]

text \<open>
  \<open>unicode.IsSpace\<close> on \<open>rune(b)\<close> for a byte \<open>b\<close>: the rune is below
  U+0100, where Go's white space is \<open>'\t'\<close>, \<open>'\n'\<close>, \<open>'\v'\<close>, \<open>'\f'\<close>, \<open>'\r'\<close>,
  \<open>' '\<close>, U+0085 (NEL) and U+00A0 (NBSP).
\<close>

definition isSpace :: "char \<Rightarrow> bool" where
  "isSpace c = (c \<in> set [CHR 0x09, CHR 0x0A, CHR 0x0B, CHR 0x0C, CHR 0x0D, CHR '' '', CHR 0x85, CHR 0xA0])"

definition skipWS :: "lexState \<Rightarrow> panic + lexState" where
  "skipWS ls = skipWhile isSpace ls"

definition getToken :: "lexState \<Rightarrow> lexState \<Rightarrow> panic + string" where
  "getToken start end' =
     (if ls_s start \<noteq> ls_s end' then Inl DifferentStrings
      else if ls_pos start \<le> ls_pos end' \<and> ls_pos end' \<le> length (ls_s start)
           then Inr (take (ls_pos end' - ls_pos start) (drop (ls_pos start) (ls_s start)))
           else Inl SliceBounds)"

subsection \<open>strconv.ParseInt(s, 10, 64)\<close>

text \<open>
  The reader calls Go's standard library function \<open>strconv.ParseInt\<close> with
  base 10 and bit size 64.  By its documentation and source it succeeds
  exactly when the string is an optional sign \<open>+\<close> or \<open>-\<close> followed by one
  or more decimal digits (no underscores, as the base is not 0) whose value
  lies in the range of \<open>int64\<close>, and then returns that value; on a syntax or
  range error it returns a non-nil error.  \<open>None\<close> is the non-nil error.
  The magnitude, a \<open>uint64\<close> in Go, is an unbounded \<open>int\<close> here: a magnitude
  that overflows \<open>uint64\<close> is a range error in Go, and is above \<open>2 ^ 63\<close>
  here, hence an error too.
\<close>

definition digit_val :: "char \<Rightarrow> int option" where
  "digit_val c =
     (let n = (of_char c :: int) in if 48 \<le> n \<and> n \<le> 57 then Some (n - 48) else None)"

fun parse_digits :: "int \<Rightarrow> string \<Rightarrow> int option" where
  "parse_digits acc [] = Some acc"
| "parse_digits acc (c # cs) =
     (case digit_val c of
        None \<Rightarrow> None
      | Some d \<Rightarrow> parse_digits (acc * 10 + d) cs)"

definition ParseUint :: "string \<Rightarrow> int option" where
  "ParseUint s = (if s = [] then None else parse_digits 0 s)"

definition ParseInt :: "string \<Rightarrow> 64 word option" where
  "ParseInt s =
     (if s = [] then None
      else
        (let neg = (hd s = CHR ''-'');
             body = (if hd s = CHR ''+'' \<or> hd s = CHR ''-'' then tl s else s)
         in case ParseUint body of
              None \<Rightarrow> None
            | Some un \<Rightarrow>
                if \<not> neg \<and> un \<ge> 2 ^ 63 then None
                else if neg \<and> un > 2 ^ 63 then None
                else Some (if neg then - word_of_int un else word_of_int un)))"

subsection \<open>read and readSeq\<close>

text \<open>
  The methods \<open>lexState.read\<close> (here \<open>read_ls\<close>) and \<open>lexState.readSeq\<close>
  return \<open>(value, cursor, error)\<close>.  \<open>Ok v ls\<close> is the return with a nil
  error, \<open>Err ls e\<close> the return \<open>(nil, ls, e)\<close>, and \<open>Abort p\<close> a panic on
  the way.
\<close>

datatype 'a rd = Ok 'a lexState | Err lexState read_error | Abort panic

function read_ls :: "lexState \<Rightarrow> val rd"
  and readSeq :: "lexState \<Rightarrow> seq rd" where
  "read_ls ls0 =
     (case skipWS ls0 of
        Inl p \<Rightarrow> Abort p
      | Inr ls \<Rightarrow>
          if isEOS ls then Err ls EOS
          else
            (case current ls of
               Inl p \<Rightarrow> Abort p
             | Inr c \<Rightarrow>
                 if c = CHR ''#'' then
                   (case advance ls of
                      Inl p \<Rightarrow> Abort p
                    | Inr ls1 \<Rightarrow>
                        if isEOS ls1 then Err ls1 EOS
                        else
                          (case current ls1 of
                             Inl p \<Rightarrow> Abort p
                           | Inr c1 \<Rightarrow>
                               (case advance ls1 of
                                  Inl p \<Rightarrow> Abort p
                                | Inr ls2 \<Rightarrow>
                                    if c1 = CHR ''t'' then Ok (Boolean True) ls2
                                    else if c1 = CHR ''f'' then Ok (Boolean False) ls2
                                    else Err ls2 NoBoolean)))
                 else if c = CHR ''('' then
                   (case advance ls of
                      Inl p \<Rightarrow> Abort p
                    | Inr ls1 \<Rightarrow>
                        (case readSeq ls1 of
                           Ok sq ls2 \<Rightarrow> Ok (Seq sq) ls2
                         | Err ls2 e \<Rightarrow> Err ls2 e
                         | Abort p \<Rightarrow> Abort p))
                 else if c = CHR '')'' then Err ls UnexpectedClose
                 else
                   (case skipWhile (\<lambda>c. \<not> isSpace c \<and> c \<noteq> CHR ''('' \<and> c \<noteq> CHR '')'') ls of
                      Inl p \<Rightarrow> Abort p
                    | Inr els \<Rightarrow>
                        (case getToken ls els of
                           Inl p \<Rightarrow> Abort p
                         | Inr tok \<Rightarrow>
                             (case ParseInt tok of
                                None \<Rightarrow> Ok (Symbol tok) els
                              | Some num \<Rightarrow> Ok (Number num) els)))))"
| "readSeq ls0 =
     (case skipWS ls0 of
        Inl p \<Rightarrow> Abort p
      | Inr ls \<Rightarrow>
          (case current ls of
             Inl p \<Rightarrow> Abort p
           | Inr c \<Rightarrow>
               if c = CHR '')'' then
                 (case advance ls of
                    Inl p \<Rightarrow> Abort p
                  | Inr ls1 \<Rightarrow> Ok Empty ls1)
               else
                 (case read_ls ls of
                    Abort p \<Rightarrow> Abort p
                  | Err ls1 e \<Rightarrow> Err ls1 e
                  | Ok a ls1 \<Rightarrow>
                      (case readSeq ls1 of
                         Abort p \<Rightarrow> Abort p
                       | Err ls2 e \<Rightarrow> Err ls2 e
                       | Ok d ls2 \<Rightarrow> Ok (Cons_seq a d) ls2))))"
  by pat_completeness auto

text \<open>
  Termination of the reader.  \<open>readSeq\<close> calls itself on the cursor that
  \<open>read_ls\<close> returned, so the termination proof needs that a successful
  \<open>read_ls\<close> moves the cursor forward; this is proved first, on the domain
  of the functions.
\<close>

lemma skipWhile_step:
  "\<not> isEOS ls \<Longrightarrow> pred (ls_s ls ! ls_pos ls) \<Longrightarrow>
   skipWhile pred ls = skipWhile pred (ls\<lparr>ls_pos := ls_pos ls + 1\<rparr>)"
  by (subst skipWhile.simps) (simp add: current_def advance_def)

lemma skipWhile_stop:
  "isEOS ls \<or> \<not> pred (ls_s ls ! ls_pos ls) \<Longrightarrow> skipWhile pred ls = Inr ls"
  by (subst skipWhile.simps) (auto simp: current_def)

lemma skipWhile_frame:
  "skipWhile pred ls = Inr ls' \<Longrightarrow> ls_s ls' = ls_s ls \<and> ls_pos ls \<le> ls_pos ls'"
proof (induction pred ls rule: skipWhile.induct)
  case (1 pred ls)
  show ?case
  proof (cases "\<not> isEOS ls \<and> pred (ls_s ls ! ls_pos ls)")
    case True
    let ?n = "ls\<lparr>ls_pos := ls_pos ls + 1\<rparr>"
    from True "1.prems" have "skipWhile pred ?n = Inr ls'"
      by (simp add: skipWhile_step)
    with True "1.IH"[of "ls_s ls ! ls_pos ls" ?n] show ?thesis
      by (simp add: current_def advance_def)
  next
    case False
    with "1.prems" show ?thesis by (simp add: skipWhile_stop)
  qed
qed

lemma skipWhile_stops:
  "skipWhile pred ls = Inr ls' \<Longrightarrow> isEOS ls' \<or> \<not> pred (ls_s ls' ! ls_pos ls')"
proof (induction pred ls rule: skipWhile.induct)
  case (1 pred ls)
  show ?case
  proof (cases "\<not> isEOS ls \<and> pred (ls_s ls ! ls_pos ls)")
    case True
    let ?n = "ls\<lparr>ls_pos := ls_pos ls + 1\<rparr>"
    from True "1.prems" have "skipWhile pred ?n = Inr ls'"
      by (simp add: skipWhile_step)
    with True "1.IH"[of "ls_s ls ! ls_pos ls" ?n] show ?thesis
      by (simp add: current_def advance_def)
  next
    case False
    with "1.prems" show ?thesis by (auto simp: skipWhile_stop)
  qed
qed

lemma skipWhile_progress:
  "skipWhile pred ls = Inr ls' \<Longrightarrow> \<not> isEOS ls \<Longrightarrow> pred (ls_s ls ! ls_pos ls) \<Longrightarrow> ls_pos ls < ls_pos ls'"
  using skipWhile_frame[of pred "ls\<lparr>ls_pos := ls_pos ls + 1\<rparr>" ls']
  by (simp add: skipWhile_step)

lemma skipWhile_no_panic: "\<exists>ls'. skipWhile pred ls = Inr ls'"
proof (induction pred ls rule: skipWhile.induct)
  case (1 pred ls)
  show ?case
  proof (cases "\<not> isEOS ls \<and> pred (ls_s ls ! ls_pos ls)")
    case True
    then show ?thesis
      using "1.IH"[of "ls_s ls ! ls_pos ls" "ls\<lparr>ls_pos := ls_pos ls + 1\<rparr>"]
      by (simp add: skipWhile_step current_def advance_def)
  next
    case False
    then show ?thesis by (simp add: skipWhile_stop)
  qed
qed

lemma read_progress:
  "read_ls_readSeq_dom (Inl ls0) \<Longrightarrow> read_ls ls0 = Ok v ls' \<Longrightarrow> ls_s ls' = ls_s ls0 \<and> ls_pos ls0 < ls_pos ls'"
  "read_ls_readSeq_dom (Inr ls0) \<Longrightarrow> readSeq ls0 = Ok sq ls' \<Longrightarrow> ls_s ls' = ls_s ls0 \<and> ls_pos ls0 < ls_pos ls'"
proof (induction ls0 and ls0 arbitrary: v ls' and sq ls' rule: read_ls_readSeq.pinduct)
  case (1 ls0)
  from "1.prems" obtain ls where ws: "skipWS ls0 = Inr ls"
    by (auto simp: read_ls.psimps[OF "1.hyps"] split: sum.splits)
  then have fr: "ls_s ls = ls_s ls0" "ls_pos ls0 \<le> ls_pos ls"
    and st: "isEOS ls \<or> \<not> isSpace (ls_s ls ! ls_pos ls)"
    using skipWhile_frame[of isSpace ls0 ls] skipWhile_stops[of isSpace ls0 ls]
    by (simp_all add: skipWS_def)
  from "1.prems" ws have ne: "\<not> isEOS ls"
    by (auto simp: read_ls.psimps[OF "1.hyps"] split: if_splits)
  define c where "c = ls_s ls ! ls_pos ls"
  have cur: "current ls = Inr c" using ne by (simp add: current_def c_def)
  have adv: "advance ls = Inr (ls\<lparr>ls_pos := ls_pos ls + 1\<rparr>)" using ne by (simp add: advance_def)
  consider (c_hash) "c = CHR ''#''" | (c_open) "c = CHR ''(''" | (c_close) "c = CHR '')''"
    | (c_atom) "c \<noteq> CHR ''#''" "c \<noteq> CHR ''(''" "c \<noteq> CHR '')''" by blast
  then show ?case
  proof cases
    case c_hash
    with "1.prems" ws ne cur adv fr show ?thesis
      by (auto simp: read_ls.psimps[OF "1.hyps"] advance_def current_def split: if_splits sum.splits)
  next
    case c_open
    with "1.prems" ws ne cur adv obtain sq where
      rs: "readSeq (ls\<lparr>ls_pos := ls_pos ls + 1\<rparr>) = Ok sq ls'"
      by (auto simp: read_ls.psimps[OF "1.hyps"] split: rd.splits)
    from "1.IH"(1)[OF ws ne cur _ _ adv rs] c_open fr show ?thesis by simp
  next
    case c_close
    with "1.prems" ws ne cur show ?thesis
      by (simp add: read_ls.psimps[OF "1.hyps"])
  next
    case c_atom
    let ?p = "\<lambda>c. \<not> isSpace c \<and> c \<noteq> CHR ''('' \<and> c \<noteq> CHR '')''"
    from "1.prems" ws ne cur c_atom obtain els where
      sk: "skipWhile ?p ls = Inr els" and "ls' = els"
      by (auto simp: read_ls.psimps[OF "1.hyps"] split: sum.splits option.splits)
    from st ne c_atom have "?p (ls_s ls ! ls_pos ls)" by (simp add: c_def)
    from skipWhile_progress[OF sk ne this] skipWhile_frame[OF sk] fr \<open>ls' = els\<close>
    show ?thesis by simp
  qed
next
  case (2 ls0)
  from "2.prems" obtain ls where ws: "skipWS ls0 = Inr ls"
    by (auto simp: readSeq.psimps[OF "2.hyps"] split: sum.splits)
  then have fr: "ls_s ls = ls_s ls0" "ls_pos ls0 \<le> ls_pos ls"
    using skipWhile_frame[of isSpace ls0 ls] by (simp_all add: skipWS_def)
  from "2.prems" ws obtain c where cur: "current ls = Inr c"
    by (auto simp: readSeq.psimps[OF "2.hyps"] split: sum.splits)
  then have ne: "\<not> isEOS ls" by (auto simp: current_def split: if_splits)
  show ?case
  proof (cases "c = CHR '')''")
    case True
    with "2.prems" ws cur ne fr show ?thesis
      by (auto simp: readSeq.psimps[OF "2.hyps"] advance_def split: sum.splits)
  next
    case False
    with "2.prems" ws cur obtain a ls1 d where
      r1: "read_ls ls = Ok a ls1" and r2: "readSeq ls1 = Ok d ls'"
      by (auto simp: readSeq.psimps[OF "2.hyps"] split: rd.splits)
    from "2.IH"(1)[OF ws cur False r1] "2.IH"(2)[OF ws cur False r1 r2] fr
    show ?thesis by simp
  qed
qed

termination read_ls
proof (relation "measures [\<lambda>x. case x of Inl ls \<Rightarrow> length (ls_s ls) - ls_pos ls | Inr ls \<Rightarrow> length (ls_s ls) - ls_pos ls,
                           \<lambda>x. case x of Inl ls \<Rightarrow> 0 | Inr ls \<Rightarrow> 1]", goal_cases)
  case 1
  show ?case by simp
next
  case (2 ls0 ls c ls1)
  then show ?case
    using skipWhile_frame[of isSpace ls0 ls]
    by (auto simp: skipWS_def advance_def isEOS_def split: if_splits)
next
  case (3 ls0 ls c)
  then show ?case
    using skipWhile_frame[of isSpace ls0 ls]
    by (auto simp: skipWS_def current_def isEOS_def split: if_splits)
next
  case (4 ls0 ls c a ls1)
  then show ?case
    using skipWhile_frame[of isSpace ls0 ls] read_progress(1)[of ls a ls1]
    by (auto simp: skipWS_def current_def isEOS_def split: if_splits)
qed

declare read_ls.simps [simp del] readSeq.simps [simp del]

text \<open>The function \<open>read\<close> of lines 269-273: it starts at offset 0 and drops the cursor.\<close>

datatype read_result = Value val | Failed read_error | Panicked panic

definition read :: "string \<Rightarrow> read_result" where
  "read s =
     (case read_ls \<lparr>ls_s = s, ls_pos = 0\<rparr> of
        Ok v ls \<Rightarrow> Value v
      | Err ls e \<Rightarrow> Failed e
      | Abort p \<Rightarrow> Panicked p)"

section \<open>Evaluator (scheme.go, lines 284-398)\<close>

definition get1 :: "seq \<Rightarrow> panic + val" where
  "get1 s =
     (case first s of
        Inl p \<Rightarrow> Inl p
      | Inr v \<Rightarrow>
          (case rest s of
             Inl p \<Rightarrow> Inl p
           | Inr r \<Rightarrow> if \<not> empty_seq r then Inl TooManyItems else Inr v))"

definition get3 :: "seq \<Rightarrow> panic + (val \<times> val \<times> val)" where
  "get3 s =
     (case first s of
        Inl p \<Rightarrow> Inl p
      | Inr v1 \<Rightarrow>
     (case rest s of
        Inl p \<Rightarrow> Inl p
      | Inr s1 \<Rightarrow>
     (case first s1 of
        Inl p \<Rightarrow> Inl p
      | Inr v2 \<Rightarrow>
     (case rest s1 of
        Inl p \<Rightarrow> Inl p
      | Inr s2 \<Rightarrow>
     (case first s2 of
        Inl p \<Rightarrow> Inl p
      | Inr v3 \<Rightarrow>
     (case rest s2 of
        Inl p \<Rightarrow> Inl p
      | Inr s3 \<Rightarrow> if \<not> empty_seq s3 then Inl TooManyItems else Inr (v1, v2, v3)))))))"

text \<open>
  \<open>globalEnv\<close> is a Go map from names to values; \<open>lookup\<close> returns the value
  and whether the name is bound.
\<close>

type_synonym env = "string \<Rightarrow> val option"

definition lookup :: "env \<Rightarrow> string \<Rightarrow> val option" where
  "lookup ge name = ge name"

fun plus_loop :: "64 word \<Rightarrow> val list \<Rightarrow> panic + val" where
  "plus_loop acc [] = Inr (Number acc)"
| "plus_loop acc (arg # args) =
     (case arg of
        Number i \<Rightarrow> plus_loop (acc + i) args
      | _ \<Rightarrow> Inl (CannotAdd arg))"

definition builtinPlus :: "val list \<Rightarrow> panic + val" where
  "builtinPlus args = plus_loop 0 args"

fun mul_loop :: "64 word \<Rightarrow> val list \<Rightarrow> panic + val" where
  "mul_loop acc [] = Inr (Number acc)"
| "mul_loop acc (arg # args) =
     (case arg of
        Number i \<Rightarrow> mul_loop (acc * i) args
      | _ \<Rightarrow> Inl (CannotMultiply arg))"

definition builtinMul :: "val list \<Rightarrow> panic + val" where
  "builtinMul args = mul_loop 1 args"

text \<open>
  \<open>plus_loop\<close> and \<open>mul_loop\<close> are the loops of \<open>builtinPlus\<close> (lines 376-386)
  and \<open>builtinMul\<close> (lines 388-398), with the variable \<open>sum\<close> or \<open>prod\<close> as
  accumulator; \<open>+=\<close> and \<open>*=\<close> on \<open>int64\<close> wrap around, as on \<open>64 word\<close>.
\<close>

text \<open>\<open>builtin.call\<close> (line 165) applies the function stored in the field \<open>f\<close>.\<close>

fun call :: "native \<Rightarrow> val list \<Rightarrow> panic + val" where
  "call NativePlus args = builtinPlus args"
| "call NativeMul args = builtinMul args"

text \<open>
  \<open>eval\<close> (lines 337-374) switches on the dynamic type of the form in the
  order boolean, number, symbol, seq; a \<open>builtin\<close> implements neither, and
  falls to the default branch.  \<open>evalApplication\<close> (lines 320-335) evaluates
  the operator, checks that it is a function, and only then evaluates the
  arguments from left to right; \<open>evalArgs\<close> is its loop, with the slice
  \<open>args\<close> as accumulator.
\<close>

function eval :: "env \<Rightarrow> val \<Rightarrow> panic + val"
  and evalApplication :: "env \<Rightarrow> val \<Rightarrow> seq \<Rightarrow> panic + val"
  and evalArgs :: "env \<Rightarrow> seq \<Rightarrow> val list \<Rightarrow> panic + val list" where
  "eval e (Boolean b) = Inr (Boolean b)"
| "eval e (Number i) = Inr (Number i)"
| "eval e (Symbol name) =
     (case lookup e name of
        None \<Rightarrow> Inl (Unbound name)
      | Some res \<Rightarrow> Inr res)"
| "eval e (Seq v) =
     (case first v of
        Inl p \<Rightarrow> Inl p
      | Inr head \<Rightarrow>
          (case head of
             Symbol name \<Rightarrow>
               if name = ''if'' then
                 (case rest v of
                    Inl p \<Rightarrow> Inl p
                  | Inr r \<Rightarrow>
                      (case get3 r of
                         Inl p \<Rightarrow> Inl p
                       | Inr (cond, cons, alt) \<Rightarrow>
                           (case eval e cond of
                              Inl p \<Rightarrow> Inl p
                            | Inr c \<Rightarrow> if isTrue c then eval e cons else eval e alt)))
               else if name = ''quote'' then
                 (case rest v of
                    Inl p \<Rightarrow> Inl p
                  | Inr r \<Rightarrow> get1 r)
               else
                 (case rest v of
                    Inl p \<Rightarrow> Inl p
                  | Inr r \<Rightarrow> evalApplication e head r)
           | _ \<Rightarrow>
               (case rest v of
                  Inl p \<Rightarrow> Inl p
                | Inr r \<Rightarrow> evalApplication e head r)))"
| "eval e (Builtin name f) = Inl (CannotEval (Builtin name f))"
| "evalApplication e fform argForms =
     (case eval e fform of
        Inl p \<Rightarrow> Inl p
      | Inr vf \<Rightarrow>
          (case vf of
             Builtin name f \<Rightarrow>
               (case evalArgs e argForms [] of
                  Inl p \<Rightarrow> Inl p
                | Inr args \<Rightarrow> call f args)
           | _ \<Rightarrow> Inl (CannotApply vf)))"
| "evalArgs e argForms args =
     (if empty_seq argForms then Inr args
      else
        (case first argForms of
           Inl p \<Rightarrow> Inl p
         | Inr argForm \<Rightarrow>
             (case eval e argForm of
                Inl p \<Rightarrow> Inl p
              | Inr arg \<Rightarrow>
                  (case rest argForms of
                     Inl p \<Rightarrow> Inl p
                   | Inr r \<Rightarrow> evalArgs e r (args @ [arg])))))"
  by pat_completeness auto

lemma first_size: "first s = Inr v \<Longrightarrow> size v < size s"
  by (cases s) auto

lemma rest_size: "rest s = Inr r \<Longrightarrow> size r < size s"
  by (cases s) auto

lemma get3_size:
  "get3 s = Inr (v1, v2, v3) \<Longrightarrow> size v1 < size s \<and> size v2 < size s \<and> size v3 < size s"
  by (cases s; cases "cdr s"; cases "cdr (cdr s)")
     (auto simp: get3_def split: if_splits)

lemma first_rest_size: "first v = Inr h \<Longrightarrow> rest v = Inr r \<Longrightarrow> size v = Suc (size h + size r)"
  by (cases v) auto

lemma get3_rest_size:
  "rest v = Inr r \<Longrightarrow> get3 r = Inr (a, b, c) \<Longrightarrow>
   size a < Suc (size v) \<and> size b < Suc (size v) \<and> size c < Suc (size v)"
  using rest_size[of v r] get3_size[of r a b c] by simp

termination eval
  apply (relation "measure (\<lambda>x. case x of
                     Inl (e, v) \<Rightarrow> size v
                   | Inr (Inl (e, fform, argForms)) \<Rightarrow> size fform + size argForms + 1
                   | Inr (Inr (e, argForms, args)) \<Rightarrow> size argForms)")
   apply simp
  apply (auto dest: get3_rest_size first_rest_size first_size rest_size)
  done

declare eval.simps(4) [simp del] evalApplication.simps [simp del] evalArgs.simps [simp del]

section \<open>Definitions used in the statements and proofs\<close>

text \<open>
  The environment of the program's own \<open>evalTest\<close> (lines 401-405): \<open>one\<close>
  is bound to 1, \<open>+\<close> and \<open>*\<close> to the two builtins.
\<close>

definition testEnv :: env where
  "testEnv = [''one'' \<mapsto> Number 1, ''+'' \<mapsto> Builtin ''+'' NativePlus, ''*'' \<mapsto> Builtin ''*'' NativeMul]"

text \<open>The five variants of a value, as the specification counts them.\<close>

datatype variant = VNumber | VBoolean | VSymbol | VSequence | VFunction

fun variant_of :: "val \<Rightarrow> variant" where
  "variant_of (Number i) = VNumber"
| "variant_of (Boolean b) = VBoolean"
| "variant_of (Symbol name) = VSymbol"
| "variant_of (Seq sq) = VSequence"
| "variant_of (Builtin name f) = VFunction"

text \<open>The number of forms of a sequence.\<close>

fun length_seq :: "seq \<Rightarrow> nat" where
  "length_seq Empty = 0"
| "length_seq (Cons_seq a d) = Suc (length_seq d)"

text \<open>
  \<open>cursor pre inp\<close> is the cursor that has passed \<open>pre\<close> and stands in front
  of \<open>inp\<close>; \<open>atom_char\<close> is the predicate with which \<open>read\<close> scans a token
  (line 257).
\<close>

definition cursor :: "string \<Rightarrow> string \<Rightarrow> lexState" where
  "cursor pre inp = \<lparr>ls_s = pre @ inp, ls_pos = length pre\<rparr>"

definition atom_char :: "char \<Rightarrow> bool" where
  "atom_char c = (\<not> isSpace c \<and> c \<noteq> CHR ''('' \<and> c \<noteq> CHR '')'')"

definition is_digit :: "char \<Rightarrow> bool" where
  "is_digit c = (c \<in> set ''0123456789'')"

text \<open>
  The values the reader can return: numbers, booleans, symbols whose name is
  a token that \<open>ParseInt\<close> rejects, and sequences of such values.
\<close>

fun readable :: "val \<Rightarrow> bool"
  and readable_seq :: "seq \<Rightarrow> bool" where
  "readable (Number i) = True"
| "readable (Boolean b) = True"
| "readable (Symbol name) =
     (name \<noteq> [] \<and> hd name \<noteq> CHR ''#'' \<and> list_all atom_char name \<and> ParseInt name = None)"
| "readable (Seq sq) = readable_seq sq"
| "readable (Builtin name f) = False"
| "readable_seq Empty = True"
| "readable_seq (Cons_seq a d) = (readable a \<and> readable_seq d)"

text \<open>
  The print form of a sequence after its opening parenthesis: the elements,
  a blank between two of them, and the closing parenthesis.
\<close>

fun pr_elems :: "seq \<Rightarrow> string" where
  "pr_elems Empty = '')''"
| "pr_elems (Cons_seq x r) = pr x @ (if empty_seq r then [] else '' '') @ pr_elems r"

section \<open>Evaluation of the special forms\<close>

lemma eval_if_form:
  "eval e (Seq (Cons_seq (Symbol ''if'') t)) =
     (case get3 t of
        Inl p \<Rightarrow> Inl p
      | Inr (c, a, b) \<Rightarrow>
          (case eval e c of
             Inl p \<Rightarrow> Inl p
           | Inr cv \<Rightarrow> if isTrue cv then eval e a else eval e b))"
  by (simp add: eval.simps(4))

lemma eval_quote_form: "eval e (Seq (Cons_seq (Symbol ''quote'') t)) = get1 t"
  by (simp add: eval.simps(4))

lemma eval_nullary_application:
  "lookup e name = Some (Builtin n f) \<Longrightarrow> name \<noteq> ''if'' \<Longrightarrow> name \<noteq> ''quote'' \<Longrightarrow>
   eval e (Seq (Cons_seq (Symbol name) Empty)) = call f []"
  by (simp add: eval.simps(4) evalApplication.simps evalArgs.simps)

lemma isTrue_iff: "isTrue v \<longleftrightarrow> v \<noteq> Boolean False"
  by (cases v) auto

lemma length_seq_0: "length_seq t = 0 \<longleftrightarrow> t = Empty"
  by (cases t) simp_all

lemma length_seq_gt: "n < length_seq t \<longleftrightarrow> (\<exists>a d. t = Cons_seq a d \<and> n \<le> length_seq d)"
  by (cases t) auto

lemma length_seq_ge: "Suc n \<le> length_seq t \<longleftrightarrow> (\<exists>a d. t = Cons_seq a d \<and> n \<le> length_seq d)"
  by (cases t) auto

lemma get3_too_few: "length_seq t < 3 \<Longrightarrow> get3 t = Inl FirstOnEmpty"
  by (cases t; cases "cdr t"; cases "cdr (cdr t)") (auto simp: get3_def)

lemma get3_too_many: "3 < length_seq t \<Longrightarrow> get3 t = Inl TooManyItems"
  by (auto simp: get3_def eval_nat_numeral length_seq_gt length_seq_ge)

lemma get1_too_few: "length_seq t = 0 \<Longrightarrow> get1 t = Inl FirstOnEmpty"
  by (simp add: length_seq_0 get1_def)

lemma get1_too_many: "1 < length_seq t \<Longrightarrow> get1 t = Inl TooManyItems"
  by (auto simp: get1_def eval_nat_numeral length_seq_gt length_seq_ge)

section \<open>The forms of the specification's examples, as the reader returns them\<close>

lemma read_quote_123:
  "read ''(quote (1 2 3))'' =
     Value (Seq (Cons_seq (Symbol ''quote'')
       (Cons_seq (Seq (Cons_seq (Number 1) (Cons_seq (Number 2) (Cons_seq (Number 3) Empty)))) Empty)))"
  by code_simp

lemma read_123:
  "read ''(1 2 3)'' = Value (Seq (Cons_seq (Number 1) (Cons_seq (Number 2) (Cons_seq (Number 3) Empty))))"
  by code_simp

lemma read_if_t_1:
  "read ''(if #t 1)'' =
     Value (Seq (Cons_seq (Symbol ''if'') (Cons_seq (Boolean True) (Cons_seq (Number 1) Empty))))"
  by code_simp

lemma read_quote_1_2:
  "read ''(quote 1 2)'' =
     Value (Seq (Cons_seq (Symbol ''quote'') (Cons_seq (Number 1) (Cons_seq (Number 2) Empty))))"
  by code_simp

section \<open>The builtin loops\<close>

lemma plus_loop_numbers: "plus_loop acc (map Number ns) = Inr (Number (foldl (+) acc ns))"
  by (induction ns arbitrary: acc) simp_all

lemma mul_loop_numbers: "mul_loop acc (map Number ns) = Inr (Number (foldl (*) acc ns))"
  by (induction ns arbitrary: acc) simp_all

lemma loops_non_number:
  "\<exists>v\<in>set args. \<forall>i. v \<noteq> Number i \<Longrightarrow>
   \<exists>v\<in>set args. (\<forall>i. v \<noteq> Number i) \<and>
      plus_loop acc args = Inl (CannotAdd v) \<and> mul_loop acc' args = Inl (CannotMultiply v)"
proof (induction args arbitrary: acc acc')
  case Nil
  then show ?case by simp
next
  case (Cons arg args)
  show ?case
  proof (cases "\<exists>i. arg = Number i")
    case True
    then obtain i where i: "arg = Number i" ..
    with Cons.prems have "\<exists>v\<in>set args. \<forall>i. v \<noteq> Number i" by auto
    from Cons.IH[OF this, of "acc + i" "acc' * i"] i show ?thesis by auto
  next
    case False
    then have "plus_loop acc (arg # args) = Inl (CannotAdd arg)"
      and "mul_loop acc' (arg # args) = Inl (CannotMultiply arg)"
      by (cases arg; simp)+
    with False show ?thesis by auto
  qed
qed

lemma loops_first_non_number:
  "\<forall>i. v \<noteq> Number i \<Longrightarrow>
   plus_loop acc (map Number ns @ v # others) = Inl (CannotAdd v) \<and>
   mul_loop acc' (map Number ns @ v # others) = Inl (CannotMultiply v)"
  by (induction ns arbitrary: acc acc') (auto split: val.splits)

lemma foldl_plus_word: "foldl (+) acc ns = (acc :: 64 word) + word_of_int (sum_list (map sint ns))"
  by (induction ns arbitrary: acc) (simp_all add: algebra_simps)

lemma foldl_times_word: "foldl (*) acc ns = (acc :: 64 word) * word_of_int (prod_list (map sint ns))"
  by (induction ns arbitrary: acc) (simp_all add: algebra_simps)

lemma sint_word_of_int_64: "sint (word_of_int k :: 64 word) = (k + 2 ^ 63) mod 2 ^ 64 - 2 ^ 63"
  using int_word_sint[of k, where ?'a = 64] by simp

lemma equal_seq_other_variant: "variant_of other \<noteq> VSequence \<Longrightarrow> equal_seq sq other = Inr False"
  by (cases sq; cases other) simp_all

section \<open>The reader on a cursor\<close>

lemma isEOS_cursor: "isEOS (cursor pre inp) \<longleftrightarrow> inp = []"
  by (simp add: isEOS_def cursor_def)

lemma current_cursor: "current (cursor pre (c # cs)) = Inr c"
  by (simp add: current_def isEOS_def cursor_def)

lemma advance_cursor: "advance (cursor pre (c # cs)) = Inr (cursor (pre @ [c]) cs)"
  by (simp add: advance_def isEOS_def cursor_def)

lemma skipWhile_cursor:
  "skipWhile pred (cursor pre inp) = Inr (cursor (pre @ takeWhile pred inp) (dropWhile pred inp))"
proof (induction inp arbitrary: pre)
  case Nil
  show ?case by (subst skipWhile.simps) (simp add: isEOS_cursor)
next
  case (Cons c cs)
  show ?case
  proof (cases "pred c")
    case True
    have "skipWhile pred (cursor pre (c # cs)) = skipWhile pred (cursor (pre @ [c]) cs)"
      by (subst skipWhile.simps) (simp add: isEOS_cursor current_cursor advance_cursor True)
    with Cons[of "pre @ [c]"] True show ?thesis by simp
  next
    case False
    then show ?thesis
      by (subst skipWhile.simps) (simp add: isEOS_cursor current_cursor)
  qed
qed

lemma skipWS_cursor:
  "skipWS (cursor pre inp) = Inr (cursor (pre @ takeWhile isSpace inp) (dropWhile isSpace inp))"
  by (simp add: skipWS_def skipWhile_cursor)

lemma getToken_cursor: "getToken (cursor pre (tok @ after)) (cursor (pre @ tok) after) = Inr tok"
  by (simp add: getToken_def cursor_def)

lemma getToken_takeWhile:
  "getToken (cursor pre inp) (cursor (pre @ takeWhile p inp) (dropWhile p inp)) = Inr (takeWhile p inp)"
  using getToken_cursor[of pre "takeWhile p inp" "dropWhile p inp"] by simp

text \<open>The reader on a cursor, in terms of the input in front of it.\<close>

lemma read_ls_at:
  assumes "skipWS ls0 = Inr (cursor p1 t1)"
  shows "read_ls ls0 =
     (case t1 of
        [] \<Rightarrow> Err (cursor p1 []) EOS
      | c # cs \<Rightarrow>
          if c = CHR ''#'' then
            (case cs of
               [] \<Rightarrow> Err (cursor (p1 @ [c]) []) EOS
             | c1 # cs1 \<Rightarrow>
                 if c1 = CHR ''t'' then Ok (Boolean True) (cursor (p1 @ [c, c1]) cs1)
                 else if c1 = CHR ''f'' then Ok (Boolean False) (cursor (p1 @ [c, c1]) cs1)
                 else Err (cursor (p1 @ [c, c1]) cs1) NoBoolean)
          else if c = CHR ''('' then
            (case readSeq (cursor (p1 @ [c]) cs) of
               Ok sq ls2 \<Rightarrow> Ok (Seq sq) ls2
             | Err ls2 e \<Rightarrow> Err ls2 e
             | Abort p \<Rightarrow> Abort p)
          else if c = CHR '')'' then Err (cursor p1 (c # cs)) UnexpectedClose
          else
            (case ParseInt (takeWhile atom_char (c # cs)) of
               None \<Rightarrow> Ok (Symbol (takeWhile atom_char (c # cs)))
                         (cursor (p1 @ takeWhile atom_char (c # cs)) (dropWhile atom_char (c # cs)))
             | Some num \<Rightarrow> Ok (Number num)
                         (cursor (p1 @ takeWhile atom_char (c # cs)) (dropWhile atom_char (c # cs)))))"
proof (cases t1)
  case Nil
  show ?thesis
    by (subst read_ls.simps) (simp add: assms Nil isEOS_cursor)
next
  case (Cons c cs)
  note t1 = Cons
  have atom: "(\<lambda>c. \<not> isSpace c \<and> c \<noteq> CHR ''('' \<and> c \<noteq> CHR '')'') = atom_char"
    by (simp add: atom_char_def fun_eq_iff)
  have tok: "skipWhile atom_char (cursor p1 (c # cs)) =
      Inr (cursor (p1 @ takeWhile atom_char (c # cs)) (dropWhile atom_char (c # cs)))"
    by (rule skipWhile_cursor)
  have get: "getToken (cursor p1 (c # cs))
      (cursor (p1 @ takeWhile atom_char (c # cs)) (dropWhile atom_char (c # cs))) =
      Inr (takeWhile atom_char (c # cs))"
    by (rule getToken_takeWhile)
  show ?thesis
  proof (cases cs)
    case Nil
    show ?thesis
      unfolding t1
      by (subst read_ls.simps)
         (simp add: assms t1 isEOS_cursor current_cursor advance_cursor atom tok get
            del: takeWhile.simps dropWhile.simps, simp add: Nil isEOS_cursor)
  next
    case (Cons c1 cs1)
    show ?thesis
      unfolding t1
      by (subst read_ls.simps)
         (simp add: assms t1 isEOS_cursor current_cursor advance_cursor atom tok get
            del: takeWhile.simps dropWhile.simps,
          simp add: Cons isEOS_cursor current_cursor advance_cursor)
  qed
qed

lemma read_ls_cursor:
  "read_ls (cursor pre inp) =
     (let p1 = pre @ takeWhile isSpace inp in
      case dropWhile isSpace inp of
        [] \<Rightarrow> Err (cursor p1 []) EOS
      | c # cs \<Rightarrow>
          if c = CHR ''#'' then
            (case cs of
               [] \<Rightarrow> Err (cursor (p1 @ [c]) []) EOS
             | c1 # cs1 \<Rightarrow>
                 if c1 = CHR ''t'' then Ok (Boolean True) (cursor (p1 @ [c, c1]) cs1)
                 else if c1 = CHR ''f'' then Ok (Boolean False) (cursor (p1 @ [c, c1]) cs1)
                 else Err (cursor (p1 @ [c, c1]) cs1) NoBoolean)
          else if c = CHR ''('' then
            (case readSeq (cursor (p1 @ [c]) cs) of
               Ok sq ls2 \<Rightarrow> Ok (Seq sq) ls2
             | Err ls2 e \<Rightarrow> Err ls2 e
             | Abort p \<Rightarrow> Abort p)
          else if c = CHR '')'' then Err (cursor p1 (c # cs)) UnexpectedClose
          else
            (case ParseInt (takeWhile atom_char (c # cs)) of
               None \<Rightarrow> Ok (Symbol (takeWhile atom_char (c # cs)))
                         (cursor (p1 @ takeWhile atom_char (c # cs)) (dropWhile atom_char (c # cs)))
             | Some num \<Rightarrow> Ok (Number num)
                         (cursor (p1 @ takeWhile atom_char (c # cs)) (dropWhile atom_char (c # cs)))))"
  unfolding Let_def by (rule read_ls_at) (rule skipWS_cursor)

lemma readSeq_at:
  assumes "skipWS ls0 = Inr (cursor p1 t1)"
  shows "readSeq ls0 =
     (case t1 of
        [] \<Rightarrow> Abort BeyondEOS
      | c # cs \<Rightarrow>
          if c = CHR '')'' then Ok Empty (cursor (p1 @ [c]) cs)
          else
            (case read_ls (cursor p1 (c # cs)) of
               Abort p \<Rightarrow> Abort p
             | Err ls1 e \<Rightarrow> Err ls1 e
             | Ok a ls1 \<Rightarrow>
                 (case readSeq ls1 of
                    Abort p \<Rightarrow> Abort p
                  | Err ls2 e \<Rightarrow> Err ls2 e
                  | Ok d ls2 \<Rightarrow> Ok (Cons_seq a d) ls2)))"
proof (cases t1)
  case Nil
  show ?thesis
    by (subst readSeq.simps) (simp add: assms Nil current_def isEOS_cursor)
next
  case (Cons c cs)
  show ?thesis
    by (subst readSeq.simps) (simp add: assms Cons current_cursor advance_cursor)
qed

lemma readSeq_cursor:
  "readSeq (cursor pre inp) =
     (let p1 = pre @ takeWhile isSpace inp in
      case dropWhile isSpace inp of
        [] \<Rightarrow> Abort BeyondEOS
      | c # cs \<Rightarrow>
          if c = CHR '')'' then Ok Empty (cursor (p1 @ [c]) cs)
          else
            (case read_ls (cursor p1 (c # cs)) of
               Abort p \<Rightarrow> Abort p
             | Err ls1 e \<Rightarrow> Err ls1 e
             | Ok a ls1 \<Rightarrow>
                 (case readSeq ls1 of
                    Abort p \<Rightarrow> Abort p
                  | Err ls2 e \<Rightarrow> Err ls2 e
                  | Ok d ls2 \<Rightarrow> Ok (Cons_seq a d) ls2)))"
  unfolding Let_def by (rule readSeq_at) (rule skipWS_cursor)

lemma read_cursor: "read s = (case read_ls (cursor [] s) of Ok v ls \<Rightarrow> Value v | Err ls e \<Rightarrow> Failed e | Abort p \<Rightarrow> Panicked p)"
  by (simp add: read_def cursor_def)

lemma spaces_then: "\<forall>c\<in>set ws. isSpace c \<Longrightarrow> \<not> isSpace x \<Longrightarrow>
  takeWhile isSpace (ws @ x # xs) = ws \<and> dropWhile isSpace (ws @ x # xs) = x # xs"
  by (simp add: takeWhile_append2 dropWhile_append2)

lemma spaces_only: "\<forall>c\<in>set ws. isSpace c \<Longrightarrow> takeWhile isSpace ws = ws \<and> dropWhile isSpace ws = []"
  by simp

lemma hash_not_space: "\<not> isSpace CHR ''#''"
  by (simp add: isSpace_def)

section \<open>Decimal numbers: FormatInt and ParseInt\<close>

lemma digit_cases: "0 \<le> d \<Longrightarrow> d < 10 \<Longrightarrow> d \<in> {0, 1, 2, 3, 4, 5, 6, 7, 8, 9 :: int}"
  by simp arith

lemma digit_val_digit_char: "0 \<le> d \<Longrightarrow> d < 10 \<Longrightarrow> digit_val (digit_char d) = Some d"
  using digit_cases[of d] by (auto simp: digit_val_def digit_char_def)

lemma is_digit_digit_char: "0 \<le> d \<Longrightarrow> d < 10 \<Longrightarrow> is_digit (digit_char d)"
  using digit_cases[of d] by (auto simp: is_digit_def digit_char_def)

lemma is_digit_atom: "is_digit c \<Longrightarrow> atom_char c \<and> c \<noteq> CHR ''#'' \<and> c \<noteq> CHR ''+'' \<and> c \<noteq> CHR ''-''"
  by (auto simp: is_digit_def atom_char_def isSpace_def)

lemma parse_digits_append:
  "parse_digits acc (xs @ ys) =
     (case parse_digits acc xs of None \<Rightarrow> None | Some m \<Rightarrow> parse_digits m ys)"
  by (induction xs arbitrary: acc) (auto split: option.splits)

lemma formatUint_digits: "0 \<le> n \<Longrightarrow> formatUint n \<noteq> [] \<and> (\<forall>c\<in>set (formatUint n). is_digit c)"
proof (induction n rule: formatUint.induct)
  case (1 n)
  show ?case
  proof (cases "n < 10")
    case True
    with "1.prems" show ?thesis
      by (subst (1 2) formatUint.simps) (simp add: is_digit_digit_char)
  next
    case False
    with "1.prems" "1.IH" have "\<forall>c\<in>set (formatUint (n div 10)). is_digit c" by simp
    moreover have "is_digit (digit_char (n mod 10))"
      by (rule is_digit_digit_char) simp_all
    ultimately show ?thesis using False
      by (subst (1 2) formatUint.simps) simp
  qed
qed

lemma parse_formatUint: "0 \<le> n \<Longrightarrow> parse_digits 0 (formatUint n) = Some n"
proof (induction n rule: formatUint.induct)
  case (1 n)
  show ?case
  proof (cases "n < 10")
    case True
    with "1.prems" show ?thesis
      by (subst formatUint.simps) (simp add: digit_val_digit_char)
  next
    case False
    with "1.prems" "1.IH" have "parse_digits 0 (formatUint (n div 10)) = Some (n div 10)" by simp
    moreover have "digit_val (digit_char (n mod 10)) = Some (n mod 10)"
      by (rule digit_val_digit_char) simp_all
    ultimately show ?thesis using False
      by (subst formatUint.simps) (simp add: parse_digits_append)
  qed
qed

lemma ParseUint_formatUint: "0 \<le> n \<Longrightarrow> ParseUint (formatUint n) = Some n"
  using formatUint_digits[of n] by (simp add: ParseUint_def parse_formatUint)

lemma sint_64_bounds: "- (2 ^ 63) \<le> sint (w :: 64 word) \<and> sint w < 2 ^ 63"
  using sint_ge[of w] sint_lt[of w] by simp

lemma ParseInt_formatInt: "ParseInt (formatInt w) = Some w"
proof (cases "sint w < 0")
  case True
  then have pu: "ParseUint (formatUint (- sint w)) = Some (- sint w)"
    by (intro ParseUint_formatUint) simp
  from True sint_64_bounds[of w] show ?thesis
    by (simp add: ParseInt_def formatInt_def pu)
next
  case False
  then have pu: "ParseUint (formatUint (sint w)) = Some (sint w)"
    by (intro ParseUint_formatUint) simp
  from False formatUint_digits[of "sint w"] have ne: "formatUint (sint w) \<noteq> []"
    and hd: "is_digit (hd (formatUint (sint w)))" by auto
  from False sint_64_bounds[of w] ne is_digit_atom[OF hd] show ?thesis
    by (simp add: ParseInt_def formatInt_def pu)
qed

lemma formatInt_chars:
  "formatInt w \<noteq> [] \<and> (\<forall>c\<in>set (formatInt w). atom_char c) \<and> hd (formatInt w) \<noteq> CHR ''#''"
proof (cases "sint w < 0")
  case True
  then have "\<forall>c\<in>set (formatUint (- sint w)). is_digit c"
    using formatUint_digits[of "- sint w"] by simp
  with True show ?thesis
    by (auto simp: formatInt_def is_digit_atom) (simp add: atom_char_def isSpace_def)
next
  case False
  with formatUint_digits[of "sint w"] have ne: "formatUint (sint w) \<noteq> []"
    and all: "\<forall>c\<in>set (formatUint (sint w)). is_digit c" by auto
  then have "is_digit (hd (formatUint (sint w)))" by auto
  with False ne all show ?thesis
    by (auto simp: formatInt_def is_digit_atom)
qed

section \<open>Reading a print form\<close>

lemma pr_loop_elems: "pr_loop acc d @ '')'' = acc @ (if empty_seq d then [] else '' '') @ pr_elems d"
  by (induction d arbitrary: acc rule: pr_elems.induct) simp_all

lemma pr_seq_elems: "pr_seq sq = CHR ''('' # pr_elems sq"
  by (cases sq) (simp_all add: pr_loop_elems)

lemma atom_takeWhile:
  "list_all atom_char tok \<Longrightarrow> after = [] \<or> \<not> atom_char (hd after) \<Longrightarrow>
   takeWhile atom_char (tok @ after) = tok \<and> dropWhile atom_char (tok @ after) = after"
  by (cases after) (auto simp: list_all_iff takeWhile_append2 dropWhile_append2)

lemma read_token:
  assumes "tok \<noteq> []" "list_all atom_char tok" "hd tok \<noteq> CHR ''#''"
    and "after = [] \<or> \<not> atom_char (hd after)"
  shows "read_ls (cursor pre (tok @ after)) =
     (case ParseInt tok of
        None \<Rightarrow> Ok (Symbol tok) (cursor (pre @ tok) after)
      | Some num \<Rightarrow> Ok (Number num) (cursor (pre @ tok) after))"
proof -
  from assms(1) obtain c cs where tok: "tok = c # cs" by (cases tok) auto
  with assms(2,3) have c: "atom_char c" "c \<noteq> CHR ''#''" by simp_all
  then have c': "\<not> isSpace c" "c \<noteq> CHR ''(''" "c \<noteq> CHR '')''" by (simp_all add: atom_char_def)
  have ws: "skipWS (cursor pre (c # cs @ after)) = Inr (cursor pre (c # cs @ after))"
    using c' by (simp add: skipWS_cursor)
  from atom_takeWhile[OF assms(2,4)]
  have tw: "takeWhile atom_char (c # cs @ after) = c # cs"
    and dw: "dropWhile atom_char (c # cs @ after) = after" by (simp_all add: tok)
  have "read_ls (cursor pre (c # cs @ after)) =
     (case ParseInt (c # cs) of
        None \<Rightarrow> Ok (Symbol (c # cs)) (cursor (pre @ c # cs) after)
      | Some num \<Rightarrow> Ok (Number num) (cursor (pre @ c # cs) after))"
    using c c' by (simp add: read_ls_at[OF ws] tw dw del: takeWhile.simps dropWhile.simps
        cong: option.case_cong)
  then show ?thesis unfolding tok by simp
qed

lemma readSeq_skip_blank:
  "readSeq (cursor pre (CHR '' '' # inp)) = readSeq (cursor (pre @ '' '') inp)"
proof -
  have sp: "isSpace CHR '' ''" by (simp add: isSpace_def)
  have "skipWS (cursor pre (CHR '' '' # inp)) =
        Inr (cursor ((pre @ '' '') @ takeWhile isSpace inp) (dropWhile isSpace inp))"
    by (simp add: skipWS_cursor sp)
  moreover have "skipWS (cursor (pre @ '' '') inp) =
        Inr (cursor ((pre @ '' '') @ takeWhile isSpace inp) (dropWhile isSpace inp))"
    by (rule skipWS_cursor)
  ultimately show ?thesis
    by (simp only: readSeq_at)
qed

lemma pr_starts:
  "readable v \<Longrightarrow> pr v \<noteq> [] \<and> \<not> isSpace (hd (pr v)) \<and> hd (pr v) \<noteq> CHR '')''"
proof (cases v)
  case (Number i)
  with formatInt_chars[of i] show ?thesis by (auto simp: atom_char_def)
next
  case (Boolean b)
  then show ?thesis by (simp add: isSpace_def)
next
  case (Symbol name)
  assume "readable v"
  with Symbol have "name \<noteq> []" "atom_char (hd name)" by (auto simp: list_all_iff)
  with Symbol show ?thesis by (simp add: atom_char_def)
next
  case (Seq sq)
  then show ?thesis by (simp add: pr_seq_elems isSpace_def)
next
  case (Builtin name f)
  assume "readable v"
  with Builtin show ?thesis by simp
qed

lemma pr_elems_delimiter: "pr_elems r \<noteq> [] \<and> (empty_seq r \<longrightarrow> hd (pr_elems r) = CHR '')'')"
  by (induction r rule: pr_elems.induct) simp_all

lemma read_pr:
  "readable v \<Longrightarrow> after = [] \<or> \<not> atom_char (hd after) \<Longrightarrow>
     read_ls (cursor pre (pr v @ after)) = Ok v (cursor (pre @ pr v) after)"
  "readable_seq sq \<Longrightarrow>
     readSeq (cursor pre (pr_elems sq @ after)) = Ok sq (cursor (pre @ pr_elems sq) after)"
proof (induction v and sq arbitrary: pre after and pre after rule: readable_readable_seq.induct)
  case (1 i)
  from formatInt_chars[of i] have "formatInt i \<noteq> []" "list_all atom_char (formatInt i)"
    "hd (formatInt i) \<noteq> CHR ''#''" by (simp_all add: list_all_iff)
  from read_token[OF this "1.prems"(2), of pre] show ?case
    by (simp add: ParseInt_formatInt)
next
  case (2 b)
  have "\<not> isSpace CHR ''#''" by (simp add: isSpace_def)
  then show ?case by (cases b) (simp_all add: read_ls_cursor)
next
  case (3 name)
  then have "name \<noteq> []" "list_all atom_char name" "hd name \<noteq> CHR ''#''" "ParseInt name = None"
    by simp_all
  from read_token[OF this(1,2,3) "3.prems"(2), of pre] this(4) show ?case by simp
next
  case (4 sq)
  have nsp: "\<not> isSpace CHR ''(''" by (simp add: isSpace_def)
  from "4.prems" have "readable_seq sq" by simp
  from "4.IH"[OF this, of "pre @ ''(''" after] nsp show ?case
    by (simp add: pr_seq_elems read_ls_cursor)
next
  case (5 name f)
  then show ?case by simp
next
  case 6
  have "\<not> isSpace CHR '')''" by (simp add: isSpace_def)
  then show ?case by (simp add: readSeq_cursor)
next
  case (7 a d)
  from "7.prems" have ra: "readable a" and rd: "readable_seq d" by simp_all
  define sep where "sep = (if empty_seq d then [] else '' '')"
  define more' where "more' = sep @ pr_elems d @ after"
  from pr_elems_delimiter[of d] have delim: "more' = [] \<or> \<not> atom_char (hd more')"
    by (cases "pr_elems d") (auto simp: more'_def sep_def atom_char_def isSpace_def)
  from pr_starts[OF ra] obtain c cs where pa: "pr a = c # cs" and c: "\<not> isSpace c" "c \<noteq> CHR '')''"
    by (cases "pr a") auto
  have ws: "skipWS (cursor pre (pr a @ more')) = Inr (cursor pre ((c # cs) @ more'))"
    using c by (simp add: skipWS_cursor pa)
  have r1: "read_ls (cursor pre ((c # cs) @ more')) = Ok a (cursor (pre @ pr a) more')"
    using "7.IH"(1)[OF ra delim, of pre] by (simp add: pa)
  have r2: "readSeq (cursor (pre @ pr a) more') = Ok d (cursor (pre @ pr a @ sep @ pr_elems d) after)"
  proof (cases "empty_seq d")
    case True
    with "7.IH"(2)[of "pre @ pr a" after] ra rd show ?thesis
      by (simp add: more'_def sep_def)
  next
    case False
    with "7.IH"(2)[of "(pre @ pr a) @ '' ''" after] ra rd show ?thesis
      by (simp add: more'_def sep_def readSeq_skip_blank)
  qed
  have "readSeq (cursor pre (pr a @ more')) = Ok (Cons_seq a d) (cursor (pre @ pr a @ sep @ pr_elems d) after)"
    using c r1 r2 by (simp add: readSeq_at[OF ws])
  then show ?case by (simp add: more'_def sep_def)
qed


lemma read_readable:
  "\<forall>pre inp v ls'. ls0 = cursor pre inp \<longrightarrow> read_ls ls0 = Ok v ls' \<longrightarrow>
     readable v \<and> (\<exists>p t. ls' = cursor p t)"
  "\<forall>pre inp sq ls'. ls0 = cursor pre inp \<longrightarrow> readSeq ls0 = Ok sq ls' \<longrightarrow>
     readable_seq sq \<and> (\<exists>p t. ls' = cursor p t)"
proof (induction ls0 and ls0 rule: read_ls_readSeq.induct)
  case (1 ls0)
  show ?case
  proof (intro allI impI)
    fix pre inp v ls'
    assume ls0: "ls0 = cursor pre inp" and rd: "read_ls ls0 = Ok v ls'"
    define p1 where "p1 = pre @ takeWhile isSpace inp"
    define t1 where "t1 = dropWhile isSpace inp"
    have ws: "skipWS ls0 = Inr (cursor p1 t1)"
      by (simp add: ls0 skipWS_cursor p1_def t1_def)
    note eq = read_ls_at[OF ws]
    show "readable v \<and> (\<exists>p t. ls' = cursor p t)"
    proof (cases t1)
      case Nil
      with rd eq show ?thesis by simp
    next
      case (Cons c cs)
      have nsp: "\<not> isSpace c"
        using Cons by (simp add: t1_def dropWhile_eq_Cons_conv)
      consider (c_hash) "c = CHR ''#''" | (c_open) "c = CHR ''(''" | (c_close) "c = CHR '')''"
        | (c_atom) "c \<noteq> CHR ''#''" "c \<noteq> CHR ''(''" "c \<noteq> CHR '')''" by blast
      then show ?thesis
      proof cases
        case c_hash
        with rd eq Cons show ?thesis
          by (cases cs) (auto split: if_splits)
      next
        case c_open
        with rd eq Cons obtain sq where rs: "readSeq (cursor (p1 @ [c]) cs) = Ok sq ls'"
          and v: "v = Seq sq"
          by (auto split: rd.splits)
        have "\<not> isEOS (cursor p1 t1)" "current (cursor p1 t1) = Inr c"
          "advance (cursor p1 t1) = Inr (cursor (p1 @ [c]) cs)"
          by (simp_all add: Cons isEOS_cursor current_cursor advance_cursor)
        from "1.IH"[OF ws this(1,2) _ c_open this(3)] c_open rs v show ?thesis
          by auto
      next
        case c_close
        with rd eq Cons show ?thesis by simp
      next
        case c_atom
        let ?tok = "takeWhile atom_char (c # cs)"
        from nsp c_atom have ac: "atom_char c" by (simp add: atom_char_def)
        then have tok: "?tok \<noteq> []" "hd ?tok = c" by simp_all
        have all: "list_all atom_char ?tok"
          by (auto simp: list_all_iff dest: set_takeWhileD)
        from rd eq Cons c_atom have
          "(v = Symbol ?tok \<and> ParseInt ?tok = None) \<or> (\<exists>num. v = Number num)"
          and "\<exists>p t. ls' = cursor p t"
          by (auto split: option.splits simp del: takeWhile.simps dropWhile.simps)
        with tok all c_atom show ?thesis by auto
      qed
    qed
  qed
next
  case (2 ls0)
  show ?case
  proof (intro allI impI)
    fix pre inp sq ls'
    assume ls0: "ls0 = cursor pre inp" and rd: "readSeq ls0 = Ok sq ls'"
    define p1 where "p1 = pre @ takeWhile isSpace inp"
    define t1 where "t1 = dropWhile isSpace inp"
    have ws: "skipWS ls0 = Inr (cursor p1 t1)"
      by (simp add: ls0 skipWS_cursor p1_def t1_def)
    note eq = readSeq_at[OF ws]
    show "readable_seq sq \<and> (\<exists>p t. ls' = cursor p t)"
    proof (cases t1)
      case Nil
      with rd eq show ?thesis by simp
    next
      case (Cons c cs)
      show ?thesis
      proof (cases "c = CHR '')''")
        case True
        with rd eq Cons show ?thesis by auto
      next
        case False
        with rd eq Cons obtain a ls1 d where r1: "read_ls (cursor p1 t1) = Ok a ls1"
          and r2: "readSeq ls1 = Ok d ls'" and sq: "sq = Cons_seq a d"
          by (auto split: rd.splits)
        have cur: "current (cursor p1 t1) = Inr c"
          by (simp add: Cons current_cursor)
        from "2.IH"(1)[OF ws cur False] r1 have ra: "readable a" and "\<exists>p t. ls1 = cursor p t"
          by blast+
        then obtain p t where "ls1 = cursor p t" by blast
        with "2.IH"(2)[OF ws cur False r1] r2 have "readable_seq d" "\<exists>p t. ls' = cursor p t"
          by blast+
        with ra sq show ?thesis by simp
      qed
    qed
  qed
qed

lemma equal_refl:
  "readable v \<Longrightarrow> equal v v = Inr True"
  "readable_seq sq \<Longrightarrow> equal_seq sq (Seq sq) = Inr True"
  by (induction v and sq rule: readable_readable_seq.induct) simp_all

lemma read_example_list:
  "read ''  (+ 1 2 () )'' =
     Value (Seq (Cons_seq (Symbol ''+'') (Cons_seq (Number 1) (Cons_seq (Number 2) (Cons_seq (Seq Empty) Empty)))))"
  by code_simp

lemma pr_example_list:
  "pr (Seq (Cons_seq (Symbol ''+'') (Cons_seq (Number 1) (Cons_seq (Number 2) (Cons_seq (Seq Empty) Empty))))) = ''(+ 1 2 ())''"
  by code_simp

section \<open>The claims\<close>

text \<open>
  C1.  The claim: for an input whose first form is an unterminated list, such
  as \<open>(1 2\<close>, \<open>read\<close> returns the error EOS (UnexpectedEndOfInput), and for
  no input does \<open>read\<close> panic.  The code does otherwise: \<open>readSeq\<close> calls
  \<open>current\<close> after skipping white space without asking \<open>isEOS\<close> first, as
  \<open>read\<close> does (lines 230 and 236), and \<open>current\<close> panics at the end of the
  input.  On \<open>(1 2\<close> the reader panics with "Advancing beyond EOS".
\<close>

theorem read_unterminated_list_panics:
  "read ''(1 2'' = Panicked BeyondEOS"
  by code_simp

text \<open>
  C2 fails as stated: equality of values of different variants is not always
  false, since \<open>builtin.equal\<close> panics whatever the other operand is.  Here
  the receiver is a function and the other operand a number.
\<close>

theorem equal_function_receiver_counterexample:
  "equal (Builtin ''+'' NativePlus) (Number 1) \<noteq> Inr False"
  by simp

text \<open>
  C2, amended.  Equality whose receiver is a function panics
  (IncomparableFunctions) for every other operand, a function or not;
  equality whose receiver is not a function returns false for every operand
  of another variant, a function included.
\<close>

theorem equal_across_variants:
  "(variant_of v = VFunction \<longrightarrow> equal v w = Inl CompareFunctions) \<and>
   (variant_of v \<noteq> VFunction \<and> variant_of w \<noteq> variant_of v \<longrightarrow> equal v w = Inr False)"
  by (cases v; cases w) (simp_all add: equal_seq_other_variant)

text \<open>Witness of C2: function and function, function and number, and three pairs with another receiver.\<close>

theorem equal_across_variants_witness:
  "equal (Builtin ''+'' NativePlus) (Builtin ''+'' NativePlus) = Inl CompareFunctions \<and>
   equal (Builtin ''+'' NativePlus) (Number 1) = Inl CompareFunctions \<and>
   equal (Number 1) (Builtin ''+'' NativePlus) = Inr False \<and>
   equal (Seq Empty) (Symbol ''x'') = Inr False \<and>
   equal (Boolean False) (Seq (Cons_seq (Number 1) Empty)) = Inr False"
  using equal_across_variants[of "Builtin ''+'' NativePlus" "Builtin ''+'' NativePlus"]
        equal_across_variants[of "Builtin ''+'' NativePlus" "Number 1"]
        equal_across_variants[of "Number 1" "Builtin ''+'' NativePlus"]
        equal_across_variants[of "Seq Empty" "Symbol ''x''"]
        equal_across_variants[of "Boolean False" "Seq (Cons_seq (Number 1) Empty)"]
  by simp

text \<open>
  C3 fails as stated: \<open>eval\<close> of a literal function value does not return
  it.  A \<open>builtin\<close> is none of boolean, number, symbol and seq, so the type
  switch of \<open>eval\<close> takes its default branch, which panics.
\<close>

theorem eval_function_literal_counterexample:
  "eval testEnv (Builtin ''+'' NativePlus) \<noteq> Inr (Builtin ''+'' NativePlus)"
  by simp

text \<open>
  C3, amended.  For every environment and every literal function value \<open>f\<close>,
  \<open>eval\<close> of \<open>f\<close> panics with "cannot eval" naming \<open>f\<close>.
\<close>

theorem eval_function_literal_panics:
  "eval e (Builtin name f) = Inl (CannotEval (Builtin name f))"
  by simp

text \<open>Witness of C3: the builtin \<open>*\<close> in the test environment.\<close>

theorem eval_function_literal_panics_witness:
  "eval testEnv (Builtin ''*'' NativeMul) = Inl (CannotEval (Builtin ''*'' NativeMul))"
  by (rule eval_function_literal_panics)

text \<open>
  C4 fails as stated: the form read from \<open>(if #t 1)\<close> does not fail with
  "Too many items in seq" (WrongArity).  \<open>get3\<close> takes the third operand with
  \<open>first\<close> on the empty rest of the list, which panics with "first called on
  empty" (EmptyAccess) before the arity check of \<open>get3\<close> is reached.
\<close>

theorem if_too_few_operands_counterexample:
  "read ''(if #t 1)'' =
     Value (Seq (Cons_seq (Symbol ''if'') (Cons_seq (Boolean True) (Cons_seq (Number 1) Empty)))) \<and>
   eval testEnv (Seq (Cons_seq (Symbol ''if'') (Cons_seq (Boolean True) (Cons_seq (Number 1) Empty))))
     \<noteq> Inl TooManyItems"
  by (simp add: read_if_t_1 eval_if_form get3_def)

text \<open>
  C4, amended.  In every environment an \<open>if\<close> form with fewer than 3
  operands panics with "first called on empty" (EmptyAccess) and one with
  more than 3 with "Too many items in seq" (WrongArity); a \<open>quote\<close> form with
  no operand panics with "first called on empty" and one with more than 1
  with "Too many items in seq".  So the form read from \<open>(if #t 1)\<close> fails
  with EmptyAccess, and the form read from \<open>(quote 1 2)\<close> with WrongArity.
\<close>

theorem arity_errors_of_if_and_quote:
  "(length_seq t < 3 \<longrightarrow> eval e (Seq (Cons_seq (Symbol ''if'') t)) = Inl FirstOnEmpty) \<and>
   (3 < length_seq t \<longrightarrow> eval e (Seq (Cons_seq (Symbol ''if'') t)) = Inl TooManyItems) \<and>
   (length_seq t = 0 \<longrightarrow> eval e (Seq (Cons_seq (Symbol ''quote'') t)) = Inl FirstOnEmpty) \<and>
   (1 < length_seq t \<longrightarrow> eval e (Seq (Cons_seq (Symbol ''quote'') t)) = Inl TooManyItems) \<and>
   (\<exists>form. read ''(if #t 1)'' = Value form \<and> eval e form = Inl FirstOnEmpty) \<and>
   (\<exists>form. read ''(quote 1 2)'' = Value form \<and> eval e form = Inl TooManyItems)"
  by (simp add: eval_if_form eval_quote_form get3_too_few get3_too_many get1_too_few get1_too_many
        read_if_t_1 read_quote_1_2)

text \<open>Witness of C4: an \<open>if\<close> with 2 and with 4 operands, a \<open>quote\<close> with 0 and with 2.\<close>

theorem arity_errors_of_if_and_quote_witness:
  "eval testEnv (Seq (Cons_seq (Symbol ''if'') (Cons_seq (Boolean True) (Cons_seq (Number 1) Empty))))
     = Inl FirstOnEmpty \<and>
   eval testEnv (Seq (Cons_seq (Symbol ''if'')
      (Cons_seq (Number 1) (Cons_seq (Number 2) (Cons_seq (Number 3) (Cons_seq (Number 4) Empty))))))
     = Inl TooManyItems \<and>
   eval testEnv (Seq (Cons_seq (Symbol ''quote'') Empty)) = Inl FirstOnEmpty \<and>
   eval testEnv (Seq (Cons_seq (Symbol ''quote'') (Cons_seq (Number 1) (Cons_seq (Number 2) Empty))))
     = Inl TooManyItems"
  using arity_errors_of_if_and_quote[of "Cons_seq (Boolean True) (Cons_seq (Number 1) Empty)" testEnv]
        arity_errors_of_if_and_quote[of "Cons_seq (Number 1) (Cons_seq (Number 2) (Cons_seq (Number 3) (Cons_seq (Number 4) Empty)))" testEnv]
        arity_errors_of_if_and_quote[of Empty testEnv]
        arity_errors_of_if_and_quote[of "Cons_seq (Number 1) (Cons_seq (Number 2) Empty)" testEnv]
  by simp

text \<open>
  C5 fails as stated: when the input ends right after \<open>#\<close>, \<open>read\<close> does
  not fail with "No boolean" (InvalidBooleanLiteral).  It asks \<open>isEOS\<close>
  after the \<open>#\<close> (line 236) and returns the error "EOS".
\<close>

theorem read_hash_end_of_input_counterexample:
  "read ''#'' \<noteq> Failed NoBoolean"
  by (simp add: read_cursor read_ls_cursor hash_not_space)

text \<open>
  C5, amended.  For every input that begins, after optional white space,
  with \<open>#\<close>: when the input ends right after the \<open>#\<close>, \<open>read\<close> fails with
  "EOS" (UnexpectedEndOfInput); when \<open>t\<close> follows it returns
  \<open>Boolean True\<close>, when \<open>f\<close> follows \<open>Boolean False\<close>, and when any other
  character follows it fails with "No boolean" (InvalidBooleanLiteral).
\<close>

theorem read_boolean_literal:
  assumes "\<forall>c\<in>set ws. isSpace c"
  shows "read (ws @ ''#'') = Failed EOS \<and>
         read (ws @ CHR ''#'' # c # after) =
           (if c = CHR ''t'' then Value (Boolean True)
            else if c = CHR ''f'' then Value (Boolean False)
            else Failed NoBoolean)"
  using spaces_then[OF assms hash_not_space]
  by (simp add: read_cursor read_ls_cursor)

text \<open>
  Witness of C5: blanks and a tab as white space; \<open>#\<close> at the end of the
  input, \<open>#t\<close>, \<open>#f\<close> with more input behind, \<open>#x\<close> and \<open>#)\<close>.
\<close>

theorem read_boolean_literal_witness:
  "read '' #'' = Failed EOS \<and> read ''  #t'' = Value (Boolean True) \<and>
   read [CHR 0x09, CHR ''#'', CHR ''f'', CHR ''f''] = Value (Boolean False) \<and>
   read ''#true'' = Value (Boolean True) \<and>
   read ''#x'' = Failed NoBoolean \<and> read ''#)'' = Failed NoBoolean"
  using read_boolean_literal[of "'' ''" "CHR ''t''" "[]"]
        read_boolean_literal[of "''  ''" "CHR ''t''" "[]"]
        read_boolean_literal[of "[CHR 0x09]" "CHR ''f''" "''f''"]
        read_boolean_literal[of "[]" "CHR ''t''" "''rue''"]
        read_boolean_literal[of "[]" "CHR ''x''" "[]"]
        read_boolean_literal[of "[]" "CHR '')''" "[]"]
  by (simp add: isSpace_def)

text \<open>
  C6.  For every environment and every form \<open>(if c a b)\<close>: the condition is
  evaluated first, and its panic is the panic of the whole form; when its
  value is anything but \<open>Boolean False\<close> the result is that of evaluating
  \<open>a\<close>, whatever \<open>b\<close> is, and when it is \<open>Boolean False\<close> the result is that
  of evaluating \<open>b\<close>, whatever \<open>a\<close> is.
\<close>

theorem if_evaluates_condition_then_one_branch:
  "eval e (Seq (Cons_seq (Symbol ''if'') (Cons_seq c (Cons_seq a (Cons_seq b Empty))))) =
     (case eval e c of
        Inl p \<Rightarrow> Inl p
      | Inr cv \<Rightarrow> if cv = Boolean False then eval e b else eval e a)"
  by (simp add: eval_if_form get3_def isTrue_iff split: sum.splits)

text \<open>
  Witness of C6: the conditions 0 and a function are truthy, and the branch
  not chosen is an unbound symbol, whose evaluation would panic.
\<close>

theorem if_evaluates_condition_then_one_branch_witness:
  "eval testEnv (Seq (Cons_seq (Symbol ''if'')
      (Cons_seq (Number 0) (Cons_seq (Number 1) (Cons_seq (Symbol ''unbound'') Empty))))) = Inr (Number 1) \<and>
   eval testEnv (Seq (Cons_seq (Symbol ''if'')
      (Cons_seq (Boolean False) (Cons_seq (Symbol ''unbound'') (Cons_seq (Number 2) Empty))))) = Inr (Number 2) \<and>
   eval testEnv (Seq (Cons_seq (Symbol ''if'')
      (Cons_seq (Symbol ''+'') (Cons_seq (Symbol ''one'') (Cons_seq (Symbol ''unbound'') Empty))))) = Inr (Number 1) \<and>
   eval testEnv (Seq (Cons_seq (Symbol ''if'')
      (Cons_seq (Symbol ''unbound'') (Cons_seq (Number 1) (Cons_seq (Number 2) Empty))))) = Inl (Unbound ''unbound'')"
  using if_evaluates_condition_then_one_branch[of testEnv "Number 0" "Number 1" "Symbol ''unbound''"]
        if_evaluates_condition_then_one_branch[of testEnv "Boolean False" "Symbol ''unbound''" "Number 2"]
        if_evaluates_condition_then_one_branch[of testEnv "Symbol ''+''" "Symbol ''one''" "Symbol ''unbound''"]
        if_evaluates_condition_then_one_branch[of testEnv "Symbol ''unbound''" "Number 1" "Number 2"]
  by (simp add: testEnv_def lookup_def)

text \<open>
  C7.  \<open>builtinPlus\<close> folds its arguments with addition on \<open>int64\<close> from 0
  and \<open>builtinMul\<close> with multiplication from 1; on no argument they return
  0 and 1, also through \<open>eval\<close> of the forms \<open>(+)\<close> and \<open>(*)\<close>; and when an
  argument is not a number both panic (TypeMismatch), naming the first
  argument that is not a number.
\<close>

theorem builtin_plus_mul_fold:
  "builtinPlus (map Number ns) = Inr (Number (foldl (+) 0 ns)) \<and>
   builtinMul (map Number ns) = Inr (Number (foldl (*) 1 ns)) \<and>
   builtinPlus [] = Inr (Number 0) \<and>
   builtinMul [] = Inr (Number 1) \<and>
   (lookup e ''+'' = Some (Builtin n NativePlus) \<longrightarrow>
      eval e (Seq (Cons_seq (Symbol ''+'') Empty)) = Inr (Number 0)) \<and>
   (lookup e ''*'' = Some (Builtin m NativeMul) \<longrightarrow>
      eval e (Seq (Cons_seq (Symbol ''*'') Empty)) = Inr (Number 1)) \<and>
   ((\<exists>v\<in>set args. \<forall>i. v \<noteq> Number i) \<longrightarrow>
      (\<exists>v\<in>set args. (\<forall>i. v \<noteq> Number i) \<and>
         builtinPlus args = Inl (CannotAdd v) \<and> builtinMul args = Inl (CannotMultiply v))) \<and>
   ((\<forall>i. w \<noteq> Number i) \<longrightarrow>
      builtinPlus (map Number ns @ w # others) = Inl (CannotAdd w) \<and>
      builtinMul (map Number ns @ w # others) = Inl (CannotMultiply w))"
proof -
  have "builtinPlus (map Number ns) = Inr (Number (foldl (+) 0 ns))"
    by (simp add: builtinPlus_def plus_loop_numbers)
  moreover have "builtinMul (map Number ns) = Inr (Number (foldl (*) 1 ns))"
    by (simp add: builtinMul_def mul_loop_numbers)
  moreover have "builtinPlus [] = Inr (Number 0)" "builtinMul [] = Inr (Number 1)"
    by (simp_all add: builtinPlus_def builtinMul_def)
  moreover have "eval e (Seq (Cons_seq (Symbol ''+'') Empty)) = Inr (Number 0)"
    if "lookup e ''+'' = Some (Builtin n NativePlus)"
    using eval_nullary_application[OF that] by (simp add: builtinPlus_def)
  moreover have "eval e (Seq (Cons_seq (Symbol ''*'') Empty)) = Inr (Number 1)"
    if "lookup e ''*'' = Some (Builtin m NativeMul)"
    using eval_nullary_application[OF that] by (simp add: builtinMul_def)
  moreover have "\<exists>v\<in>set args. (\<forall>i. v \<noteq> Number i) \<and>
         builtinPlus args = Inl (CannotAdd v) \<and> builtinMul args = Inl (CannotMultiply v)"
    if "\<exists>v\<in>set args. \<forall>i. v \<noteq> Number i"
    using loops_non_number[OF that, of 0 1] by (simp add: builtinPlus_def builtinMul_def)
  moreover have "builtinPlus (map Number ns @ w # others) = Inl (CannotAdd w) \<and>
      builtinMul (map Number ns @ w # others) = Inl (CannotMultiply w)"
    if "\<forall>i. w \<noteq> Number i"
    using loops_first_non_number[OF that, of 0 ns others 1]
    by (simp add: builtinPlus_def builtinMul_def)
  ultimately show ?thesis by blast
qed

text \<open>
  Witness of C7: 1 + 2 + 3 and 3 * 4, the forms \<open>(+)\<close> and \<open>(*)\<close> in the
  test environment, and the arguments 1, \<open>()\<close>, 2.
\<close>

theorem builtin_plus_mul_fold_witness:
  "builtinPlus [Number 1, Number 2, Number 3] = Inr (Number 6) \<and>
   builtinMul [Number 3, Number 4] = Inr (Number 12) \<and>
   eval testEnv (Seq (Cons_seq (Symbol ''+'') Empty)) = Inr (Number 0) \<and>
   eval testEnv (Seq (Cons_seq (Symbol ''*'') Empty)) = Inr (Number 1) \<and>
   (\<exists>v\<in>set [Number 1, Seq Empty, Number 2]. (\<forall>i. v \<noteq> Number i) \<and>
      builtinPlus [Number 1, Seq Empty, Number 2] = Inl (CannotAdd v) \<and>
      builtinMul [Number 1, Seq Empty, Number 2] = Inl (CannotMultiply v)) \<and>
   builtinPlus [Number 1, Number 2, Number 3, Boolean True, Symbol ''x''] = Inl (CannotAdd (Boolean True)) \<and>
   builtinMul [Number 3, Number 4, Symbol ''x'', Boolean True] = Inl (CannotMultiply (Symbol ''x''))"
  using builtin_plus_mul_fold[of "[1, 2, 3]" testEnv "''+''" "''*''" "[Number 1, Seq Empty, Number 2]"
          "Boolean True" "[Symbol ''x'']"]
        builtin_plus_mul_fold[of "[3, 4]" testEnv "''+''" "''*''" "[Number 1, Seq Empty, Number 2]"
          "Symbol ''x''" "[Boolean True]"]
  by (simp add: testEnv_def lookup_def)

text \<open>
  C8.  For every value \<open>v\<close> that \<open>read\<close> returns on some input: \<open>v\<close> is not
  a function, and \<open>read\<close> of the print form of \<open>v\<close> returns a value that is
  structurally equal to \<open>v\<close>, with either of them as the receiver of
  \<open>equal\<close>.
\<close>

theorem read_print_roundtrip:
  assumes "read input = Value v"
  shows "variant_of v \<noteq> VFunction \<and>
         (\<exists>v'. read (pr v) = Value v' \<and> equal v' v = Inr True \<and> equal v v' = Inr True)"
proof -
  from assms obtain ls' where "read_ls (cursor [] input) = Ok v ls'"
    by (auto simp: read_cursor split: rd.splits)
  with read_readable(1)[of "cursor [] input"] have r: "readable v" by blast
  from read_pr(1)[OF r, of "[]" "[]"] have "read (pr v) = Value v"
    by (simp add: read_cursor)
  moreover from r have "variant_of v \<noteq> VFunction" by (cases v) simp_all
  ultimately show ?thesis using equal_refl(1)[OF r] by simp
qed

text \<open>
  Witness of C8: the input \<open>  (+ 1 2 () )\<close> of the program's own
  \<open>readTest\<close>, whose value prints as \<open>(+ 1 2 ())\<close>.
\<close>

theorem read_print_roundtrip_witness:
  "read ''  (+ 1 2 () )'' =
     Value (Seq (Cons_seq (Symbol ''+'') (Cons_seq (Number 1) (Cons_seq (Number 2) (Cons_seq (Seq Empty) Empty))))) \<and>
   read ''(+ 1 2 ())'' =
     Value (Seq (Cons_seq (Symbol ''+'') (Cons_seq (Number 1) (Cons_seq (Number 2) (Cons_seq (Seq Empty) Empty))))) \<and>
   equal (Seq (Cons_seq (Symbol ''+'') (Cons_seq (Number 1) (Cons_seq (Number 2) (Cons_seq (Seq Empty) Empty)))))
         (Seq (Cons_seq (Symbol ''+'') (Cons_seq (Number 1) (Cons_seq (Number 2) (Cons_seq (Seq Empty) Empty)))))
     = Inr True"
proof -
  let ?F = "Seq (Cons_seq (Symbol ''+'') (Cons_seq (Number 1) (Cons_seq (Number 2) (Cons_seq (Seq Empty) Empty))))"
  from read_print_roundtrip[OF read_example_list] obtain v'
    where a: "read (pr ?F) = Value v'" and b: "equal v' ?F = Inr True"
    by blast
  from a have c: "read ''(+ 1 2 ())'' = Value v'"
    by (simp only: pr_example_list)
  have d: "read ''(+ 1 2 ())'' = Value ?F"
    by code_simp
  from c d have "v' = ?F" by simp
  with b d read_example_list show ?thesis by simp
qed

text \<open>
  C9.  For every environment and every operand \<open>x\<close>, \<open>eval\<close> of
  \<open>(quote x)\<close> returns \<open>x\<close> itself; and the value of the form read from
  \<open>(quote (1 2 3))\<close> is structurally equal to the value read from \<open>(1 2 3)\<close>,
  with either of them as the receiver of \<open>equal\<close>.
\<close>

theorem quote_returns_operand_unevaluated:
  "eval e (Seq (Cons_seq (Symbol ''quote'') (Cons_seq x Empty))) = Inr x \<and>
   (\<exists>form v w. read ''(quote (1 2 3))'' = Value form \<and> eval e form = Inr v \<and>
      read ''(1 2 3)'' = Value w \<and> equal w v = Inr True \<and> equal v w = Inr True)"
  by (simp add: eval_quote_form get1_def read_quote_123 read_123)

text \<open>
  Witness of C9: the operand is a nested list holding an unbound symbol and
  an ill-formed \<open>if\<close>, whose evaluation would panic.
\<close>

theorem quote_returns_operand_unevaluated_witness:
  "eval testEnv (Seq (Cons_seq (Symbol ''quote'')
      (Cons_seq (Seq (Cons_seq (Symbol ''unbound'') (Cons_seq (Seq (Cons_seq (Symbol ''if'') Empty)) Empty))) Empty))) =
     Inr (Seq (Cons_seq (Symbol ''unbound'') (Cons_seq (Seq (Cons_seq (Symbol ''if'') Empty)) Empty)))"
  using quote_returns_operand_unevaluated[of testEnv
      "Seq (Cons_seq (Symbol ''unbound'') (Cons_seq (Seq (Cons_seq (Symbol ''if'') Empty)) Empty))"]
  by blast

text \<open>
  C10.  The results of \<open>builtinPlus\<close> and \<open>builtinMul\<close> on numbers are the
  mathematical sum and product of the arguments wrapped modulo \<open>2 ^ 64\<close> into
  the range of \<open>int64\<close>: never an error, never a value outside that range.
\<close>

theorem builtin_arithmetic_wraps:
  "(\<exists>r. builtinPlus (map Number ns) = Inr (Number r) \<and>
        sint r = (sum_list (map sint ns) + 2 ^ 63) mod 2 ^ 64 - 2 ^ 63) \<and>
   (\<exists>r. builtinMul (map Number ns) = Inr (Number r) \<and>
        sint r = (prod_list (map sint ns) + 2 ^ 63) mod 2 ^ 64 - 2 ^ 63)"
  by (simp add: builtinPlus_def builtinMul_def plus_loop_numbers mul_loop_numbers
        foldl_plus_word foldl_times_word sint_word_of_int_64)

text \<open>
  Witness of C10: the largest \<open>int64\<close> plus 1 is the smallest \<open>int64\<close>, and
  \<open>2 ^ 62\<close> times 4 is 0.
\<close>

theorem builtin_arithmetic_wraps_witness:
  "(\<exists>r. builtinPlus [Number 9223372036854775807, Number 1] = Inr (Number r) \<and>
        sint r = - 9223372036854775808) \<and>
   (\<exists>r. builtinMul [Number 4611686018427387904, Number 4] = Inr (Number r) \<and> sint r = 0)"
  using builtin_arithmetic_wraps[of "[9223372036854775807, 1]"]
        builtin_arithmetic_wraps[of "[4611686018427387904, 4]"]
  by simp

end
